theory Spec2Isabelle
  imports Main "HOL-Library.Word"
begin

unbundle bit_operations_syntax

section \<open>Data model (include/bigint.h)\<close>

type_synonym u8 = "8 word"
type_synonym u16 = "16 word"

text \<open>\<^verbatim>\<open>enum bigint_cmp_retval\<close>.\<close>

datatype bigint_cmp_retval = BIGINT_FALSE | BIGINT_TRUE | BIGINT_UNDEFINED

text \<open>
  A pointer is either \<^verbatim>\<open>NULL\<close> or the address of a block of the store. A
  \<^verbatim>\<open>struct bigint_s\<close> is a pointer with a 16-bit size; it is passed by value, so a
  callee gets its own copy of the two fields and shares the octets behind \<open>data\<close>
  with its caller.
\<close>

datatype ptr = NULL | Ptr nat

record bigint_s =
  data :: ptr
  sz :: u16

section \<open>The store\<close>

text \<open>
  The store maps the address of every live block to its octets; \<open>brk\<close> is the next
  address the allocator hands out. An access outside a live block is undefined behaviour
  in C; here it is the fault \<open>OutOfBounds\<close>.
\<close>

record heap =
  blocks :: "nat \<Rightarrow> u8 list option"
  brk :: nat

datatype fault = OutOfBounds

text \<open>\<^verbatim>\<open>p[i]\<close> as an rvalue: the index is a C \<^verbatim>\<open>int\<close> after promotion.\<close>

fun rd :: "heap \<Rightarrow> ptr \<Rightarrow> int \<Rightarrow> u8 option" where
  "rd h NULL i = None"
| "rd h (Ptr p) i =
     (case blocks h p of
        None \<Rightarrow> None
      | Some blk \<Rightarrow> if 0 \<le> i \<and> i < int (length blk) then Some (blk ! nat i) else None)"

text \<open>\<^verbatim>\<open>p[i] = v\<close>.\<close>

fun wr :: "heap \<Rightarrow> ptr \<Rightarrow> int \<Rightarrow> u8 \<Rightarrow> heap option" where
  "wr h NULL i v = None"
| "wr h (Ptr p) i v =
     (case blocks h p of
        None \<Rightarrow> None
      | Some blk \<Rightarrow>
          if 0 \<le> i \<and> i < int (length blk)
          then Some (h\<lparr>blocks := (blocks h)(p \<mapsto> blk[nat i := v])\<rparr>)
          else None)"

subsection \<open>The memory primitives of \<^verbatim>\<open>uni/memory.h\<close>\<close>

text \<open>
  Modelled from the spec: \<^verbatim>\<open>uni_alloc0\<close>, the zero-filling allocator of the
  external header \<^verbatim>\<open>uni/memory.h\<close>. It returns a fresh block of \<open>n\<close> zero octets and
  never returns null.
\<close>

definition uni_alloc0 :: "heap \<Rightarrow> nat \<Rightarrow> ptr \<times> heap" where
  "uni_alloc0 h n =
     (Ptr (brk h), h\<lparr>blocks := (blocks h)(brk h \<mapsto> replicate n 0), brk := Suc (brk h)\<rparr>)"

text \<open>
  Modelled from the spec: \<^verbatim>\<open>uni_alloc\<close>, the plain allocator of
  \<^verbatim>\<open>uni/memory.h\<close>. It returns a fresh block of \<open>n\<close> octets whose content is not
  specified; that content is the parameter \<open>junk\<close>.
\<close>

definition uni_alloc :: "(nat \<Rightarrow> u8) \<Rightarrow> heap \<Rightarrow> nat \<Rightarrow> ptr \<times> heap" where
  "uni_alloc junk h n =
     (Ptr (brk h), h\<lparr>blocks := (blocks h)(brk h \<mapsto> map junk [0..<n]), brk := Suc (brk h)\<rparr>)"

text \<open>
  Modelled from the spec: \<^verbatim>\<open>uni_free\<close> of \<^verbatim>\<open>uni/memory.h\<close> releases a block; the
  block is no longer live afterwards.
\<close>

fun uni_free :: "heap \<Rightarrow> ptr \<Rightarrow> heap" where
  "uni_free h NULL = h"
| "uni_free h (Ptr p) = h\<lparr>blocks := (blocks h)(p := None)\<rparr>"

text \<open>
  Modelled from the spec: \<^verbatim>\<open>uni_memcpy\<close> of \<^verbatim>\<open>uni/memory.h\<close>, the memory-copy
  primitive, for a destination in the store and a source given by its octets. The
  destination block must hold at least as many octets as are copied.
\<close>

fun uni_memcpy :: "heap \<Rightarrow> ptr \<Rightarrow> u8 list \<Rightarrow> fault + heap" where
  "uni_memcpy h NULL src = Inl OutOfBounds"
| "uni_memcpy h (Ptr p) src =
     (case blocks h p of
        None \<Rightarrow> Inl OutOfBounds
      | Some blk \<Rightarrow>
          if length src \<le> length blk
          then Inr (h\<lparr>blocks := (blocks h)(p \<mapsto> src @ drop (length src) blk)\<rparr>)
          else Inl OutOfBounds)"

subsection \<open>Object representation of a primitive\<close>

text \<open>
  \<^verbatim>\<open>uni_memcpy( ret.data, &n, sizeof n )\<close> copies the octets of \<open>n\<close> as they lie in
  the memory of the host, so their order is the byte order of the host. \<open>le_octets k w\<close>
  are the \<open>k\<close> low octets of \<open>w\<close>, least significant first.
\<close>

datatype byte_order = LittleEndian | BigEndian

fun le_octets :: "nat \<Rightarrow> 'a::len word \<Rightarrow> u8 list" where
  "le_octets 0 w = []"
| "le_octets (Suc k) w = ucast w # le_octets k (drop_bit 8 w)"

definition object_rep :: "byte_order \<Rightarrow> nat \<Rightarrow> 'a::len word \<Rightarrow> u8 list" where
  "object_rep bo k w =
     (case bo of LittleEndian \<Rightarrow> le_octets k w | BigEndian \<Rightarrow> rev (le_octets k w))"

section \<open>Lifecycle (src/bigint.c)\<close>

text \<open>
  \<^verbatim>\<open>bigint_s_init\<close>: \<^verbatim>\<open>uni_memset( &ret, 0, sizeof ret )\<close> clears both fields of the
  local struct, then a positive size allocates.
\<close>

definition bigint_s_init :: "heap \<Rightarrow> u16 \<Rightarrow> bigint_s \<times> heap" where
  "bigint_s_init h n =
     (let ret = \<lparr>data = NULL, sz = 0\<rparr>
      in if n > 0
         then (let (p, h') = uni_alloc0 h (unat n) in (ret\<lparr>sz := n, data := p\<rparr>, h'))
         else (ret, h))"

text \<open>\<^verbatim>\<open>bigint_s_make64\<close>, \<^verbatim>\<open>32\<close>, \<^verbatim>\<open>16\<close>, \<^verbatim>\<open>8\<close>: \<^verbatim>\<open>sizeof n\<close> is 8, 4, 2, 1.\<close>

definition bigint_s_make64 :: "byte_order \<Rightarrow> heap \<Rightarrow> 64 word \<Rightarrow> fault + bigint_s \<times> heap" where
  "bigint_s_make64 bo h n =
     (let (ret, h1) = bigint_s_init h 8
      in case uni_memcpy h1 (data ret) (object_rep bo 8 n) of
           Inl e \<Rightarrow> Inl e
         | Inr h2 \<Rightarrow> Inr (ret\<lparr>sz := 8\<rparr>, h2))"

definition bigint_s_make32 :: "byte_order \<Rightarrow> heap \<Rightarrow> 32 word \<Rightarrow> fault + bigint_s \<times> heap" where
  "bigint_s_make32 bo h n =
     (let (ret, h1) = bigint_s_init h 4
      in case uni_memcpy h1 (data ret) (object_rep bo 4 n) of
           Inl e \<Rightarrow> Inl e
         | Inr h2 \<Rightarrow> Inr (ret\<lparr>sz := 4\<rparr>, h2))"

definition bigint_s_make16 :: "byte_order \<Rightarrow> heap \<Rightarrow> 16 word \<Rightarrow> fault + bigint_s \<times> heap" where
  "bigint_s_make16 bo h n =
     (let (ret, h1) = bigint_s_init h 2
      in case uni_memcpy h1 (data ret) (object_rep bo 2 n) of
           Inl e \<Rightarrow> Inl e
         | Inr h2 \<Rightarrow> Inr (ret\<lparr>sz := 2\<rparr>, h2))"

definition bigint_s_make8 :: "byte_order \<Rightarrow> heap \<Rightarrow> 8 word \<Rightarrow> fault + bigint_s \<times> heap" where
  "bigint_s_make8 bo h n =
     (let (ret, h1) = bigint_s_init h 1
      in case uni_memcpy h1 (data ret) (object_rep bo 1 n) of
           Inl e \<Rightarrow> Inl e
         | Inr h2 \<Rightarrow> Inr (ret\<lparr>sz := 1\<rparr>, h2))"

text \<open>
  \<^verbatim>\<open>bigint_s_dup\<close>. The loop
  \<^verbatim>\<open>for(i = ret.sz - 1, new_sz = ret.sz; i >= 0; --i) new_sz -= ret.data[i] == 0 ? 1 : 0;\<close>
  has a \<^verbatim>\<open>u16\<close> counter: \<^verbatim>\<open>ret.sz - 1\<close> and \<^verbatim>\<open>--i\<close> wrap around, and the test
  \<^verbatim>\<open>i >= 0\<close> is on the promoted, non-negative value. A run that never returns is
  \<open>None\<close>.
\<close>

partial_function (option) dup_loop ::
  "heap \<Rightarrow> bigint_s \<Rightarrow> u16 \<Rightarrow> u16 \<Rightarrow> (fault + u16) option" where
  "dup_loop h ret i new_sz =
     (if 0 \<le> uint i
      then (case rd h (data ret) (uint i) of
              None \<Rightarrow> Some (Inl OutOfBounds)
            | Some x \<Rightarrow> dup_loop h ret (i - 1) (new_sz - (if x = 0 then 1 else 0)))
      else Some (Inr new_sz))"

declare dup_loop.simps [code]

definition bigint_s_dup ::
  "(nat \<Rightarrow> u8) \<Rightarrow> heap \<Rightarrow> bigint_s \<Rightarrow> (fault + bigint_s \<times> heap) option" where
  "bigint_s_dup junk h inp =
     (let ret = inp
      in case dup_loop h ret (sz ret - 1) (sz ret) of
           None \<Rightarrow> None
         | Some (Inl e) \<Rightarrow> Some (Inl e)
         | Some (Inr new_sz) \<Rightarrow>
             if new_sz \<noteq> sz ret
             then (let (new_data, h1) = uni_alloc junk h (unat new_sz);
                       h2 = uni_free h1 (data ret)
                   in Some (Inr (ret\<lparr>data := new_data, sz := new_sz\<rparr>, h2)))
             else Some (Inr (ret, h)))"

section \<open>Comparison (src/bigint.c)\<close>

text \<open>
  \<^verbatim>\<open>isnegative\<close>: \<^verbatim>\<open>in->data[in->sz - 1] >> 7\<close>. The index is computed on the
  promoted size, and the octet is promoted before the shift.
\<close>

definition isnegative :: "heap \<Rightarrow> bigint_s \<Rightarrow> int option" where
  "isnegative h v =
     (case rd h (data v) (uint (sz v) - 1) of
        None \<Rightarrow> None
      | Some x \<Rightarrow> Some (drop_bit 7 (uint x)))"

text \<open>
  \<^verbatim>\<open>a->data[a->sz - 1] = a->data[a->sz - 1] & 0x7F\<close>, the statement that clears the
  sign bit of an operand in its buffer.
\<close>

definition clear_sign :: "heap \<Rightarrow> bigint_s \<Rightarrow> heap option" where
  "clear_sign h v =
     (case rd h (data v) (uint (sz v) - 1) of
        None \<Rightarrow> None
      | Some x \<Rightarrow> wr h (data v) (uint (sz v) - 1) (x AND 0x7F))"

text \<open>
  The loop over the octets of the longer operand,
  \<^verbatim>\<open>for(i = big->sz - 1; i >= sml_sz; --i) if(big->data[i] != 0) return ...\<close>.
  The result is \<open>True\<close> when the loop returned from the function at a non-zero octet
  and \<open>False\<close> when its condition ended it.
\<close>

partial_function (option) cmp_big_loop ::
  "heap \<Rightarrow> bigint_s \<Rightarrow> u16 \<Rightarrow> u16 \<Rightarrow> (fault + bool) option" where
  "cmp_big_loop h big sml_sz i =
     (if i \<ge> sml_sz
      then (case rd h (data big) (uint i) of
              None \<Rightarrow> Some (Inl OutOfBounds)
            | Some x \<Rightarrow> if x \<noteq> 0 then Some (Inr True) else cmp_big_loop h big sml_sz (i - 1))
      else Some (Inr False))"

declare cmp_big_loop.simps [code]

text \<open>
  The scan \<^verbatim>\<open>for(i = sml_sz; i >= 0; --i)\<close> over the octets of both operands. The
  result is \<open>Some r\<close> when the loop returned \<open>r\<close> from the function and \<open>None\<close>
  when its condition ended it.
\<close>

partial_function (option) cmp_scan_loop ::
  "heap \<Rightarrow> bigint_s \<Rightarrow> bigint_s \<Rightarrow> int \<Rightarrow> u16 \<Rightarrow> (fault + bigint_cmp_retval option) option" where
  "cmp_scan_loop h a b a_neg i =
     (if 0 \<le> uint i
      then (case rd h (data a) (uint i) of
              None \<Rightarrow> Some (Inl OutOfBounds)
            | Some x \<Rightarrow>
                (case rd h (data b) (uint i) of
                   None \<Rightarrow> Some (Inl OutOfBounds)
                 | Some y \<Rightarrow>
                     if x > y then Some (Inr (Some (if a_neg \<noteq> 0 then BIGINT_FALSE else BIGINT_TRUE)))
                     else if x < y then Some (Inr (Some (if a_neg \<noteq> 0 then BIGINT_TRUE else BIGINT_FALSE)))
                     else cmp_scan_loop h a b a_neg (i - 1)))
      else Some (Inr None))"

declare cmp_scan_loop.simps [code]

text \<open>
  The last block of \<^verbatim>\<open>bigint_s_cmp_impl\<close>: the scan from index \<^verbatim>\<open>sml_sz\<close> and the
  \<^verbatim>\<open>return orequ ? BIGINT_TRUE : BIGINT_FALSE\<close> that follows it. Both the branch for
  equal sizes and the fall-through of the branch for different sizes end here.
\<close>

definition cmp_tail ::
  "heap \<Rightarrow> bigint_s \<Rightarrow> bigint_s \<Rightarrow> int \<Rightarrow> bool \<Rightarrow> (fault + bigint_cmp_retval \<times> heap) option" where
  "cmp_tail h a b a_neg orequ =
     (let sml_sz = (if sz a < sz b then sz a else sz b)
      in (case cmp_scan_loop h a b a_neg sml_sz of
            None \<Rightarrow> None
          | Some (Inl e) \<Rightarrow> Some (Inl e)
          | Some (Inr (Some r)) \<Rightarrow> Some (Inr (r, h))
          | Some (Inr None) \<Rightarrow> Some (Inr (if orequ then BIGINT_TRUE else BIGINT_FALSE, h))))"

text \<open>
  The block of \<^verbatim>\<open>bigint_s_cmp_impl\<close> after the two signs were found equal: both sign
  bits are cleared in the operands' buffers, then the sizes are compared.
\<close>

definition cmp_same_sign ::
  "heap \<Rightarrow> bigint_s \<Rightarrow> bigint_s \<Rightarrow> int \<Rightarrow> bool \<Rightarrow> (fault + bigint_cmp_retval \<times> heap) option" where
  "cmp_same_sign h a b a_neg orequ =
     (case clear_sign h a of
        None \<Rightarrow> Some (Inl OutOfBounds)
      | Some h1 \<Rightarrow>
          (case clear_sign h1 b of
             None \<Rightarrow> Some (Inl OutOfBounds)
           | Some h2 \<Rightarrow>
               if sz a \<noteq> sz b
               then
                 (let a_big = (sz a > sz b);
                      big = (if a_big then a else b);
                      sml_sz = (if sz a < sz b then sz a else sz b)
                  in (case cmp_big_loop h2 big sml_sz (sz big - 1) of
                        None \<Rightarrow> None
                      | Some (Inl e) \<Rightarrow> Some (Inl e)
                      | Some (Inr True) \<Rightarrow>
                          Some (Inr (if a_big
                                     then (if a_neg \<noteq> 0 then BIGINT_FALSE else BIGINT_TRUE)
                                     else (if a_neg \<noteq> 0 then BIGINT_TRUE else BIGINT_FALSE), h2))
                      | Some (Inr False) \<Rightarrow> cmp_tail h2 a b a_neg orequ))
               else cmp_tail h2 a b a_neg orequ))"

text \<open>
  \<^verbatim>\<open>bigint_s_cmp_impl\<close>. The operands are pointers to the by-value copies of the two
  structs, so the writes through \<^verbatim>\<open>a->data\<close> and \<^verbatim>\<open>b->data\<close> go to the store; the
  store is returned with the result.
\<close>

definition bigint_s_cmp_impl ::
  "heap \<Rightarrow> bigint_s \<Rightarrow> bigint_s \<Rightarrow> bool \<Rightarrow> (fault + bigint_cmp_retval \<times> heap) option" where
  "bigint_s_cmp_impl h a b orequ =
     (if sz a = 0 \<or> sz b = 0 then Some (Inr (BIGINT_UNDEFINED, h))
      else
        (case isnegative h a of
           None \<Rightarrow> Some (Inl OutOfBounds)
         | Some a_neg \<Rightarrow>
             (case isnegative h b of
                None \<Rightarrow> Some (Inl OutOfBounds)
              | Some b_neg \<Rightarrow>
                  if a_neg \<noteq> b_neg
                  then Some (Inr (if b_neg \<noteq> 0 then BIGINT_TRUE else BIGINT_FALSE, h))
                  else cmp_same_sign h a b a_neg orequ)))"

definition bigint_s_cmp_gt ::
  "heap \<Rightarrow> bigint_s \<Rightarrow> bigint_s \<Rightarrow> (fault + bigint_cmp_retval \<times> heap) option" where
  "bigint_s_cmp_gt h a b = bigint_s_cmp_impl h a b False"

definition bigint_s_cmp_ge ::
  "heap \<Rightarrow> bigint_s \<Rightarrow> bigint_s \<Rightarrow> (fault + bigint_cmp_retval \<times> heap) option" where
  "bigint_s_cmp_ge h a b = bigint_s_cmp_impl h a b True"

text \<open>
  \<^verbatim>\<open>bigint_s_cmp_eq\<close> only reads. Its loop \<^verbatim>\<open>for(i = 0; i < sz; ++i)\<close> gives
  \<open>Some BIGINT_FALSE\<close> when it returned from the function at a differing octet and
  \<open>None\<close> when its condition ended it.
\<close>

function cmp_eq_loop ::
  "heap \<Rightarrow> bigint_s \<Rightarrow> bigint_s \<Rightarrow> u16 \<Rightarrow> u16 \<Rightarrow> fault + bigint_cmp_retval option" where
  "cmp_eq_loop h a b n i =
     (if i < n
      then (case rd h (data a) (uint i) of
              None \<Rightarrow> Inl OutOfBounds
            | Some x \<Rightarrow>
                (case rd h (data b) (uint i) of
                   None \<Rightarrow> Inl OutOfBounds
                 | Some y \<Rightarrow>
                     if x \<noteq> y then Inr (Some BIGINT_FALSE) else cmp_eq_loop h a b n (i + 1)))
      else Inr None)"
  by pat_completeness auto
termination
proof (relation "measure (\<lambda>(h, a, b, n, i). unat n - unat i)")
  show "wf (measure (\<lambda>(h, a, b, n, i). unat n - unat i))"
    by simp
next
  fix h :: heap and a b :: bigint_s and n i :: u16 and x y :: u8
  assume "i < n"
  then have "unat i < unat n"
    by (simp add: word_less_nat_alt)
  moreover have "unat n < 2 ^ 16"
    using unsigned_less [of n] by simp
  ultimately have "unat (i + 1) = unat i + 1"
    by (simp add: unat_word_ariths)
  with \<open>unat i < unat n\<close>
  show "((h, a, b, n, i + 1), (h, a, b, n, i)) \<in> measure (\<lambda>(h, a, b, n, i). unat n - unat i)"
    by simp
qed

declare cmp_eq_loop.simps [simp del]

definition bigint_s_cmp_eq :: "heap \<Rightarrow> bigint_s \<Rightarrow> bigint_s \<Rightarrow> fault + bigint_cmp_retval" where
  "bigint_s_cmp_eq h a b =
     (if sz a = 0 \<or> sz b = 0 then Inr BIGINT_UNDEFINED
      else if sz a \<noteq> sz b then Inr BIGINT_FALSE
      else
        (case cmp_eq_loop h a b (sz a) 0 of
           Inl e \<Rightarrow> Inl e
         | Inr (Some r) \<Rightarrow> Inr r
         | Inr None \<Rightarrow> Inr BIGINT_TRUE))"

section \<open>Values used in the statements\<close>

text \<open>The store before any allocation.\<close>

definition empty_heap :: heap where
  "empty_heap = \<lparr>blocks = Map.empty, brk = 0\<rparr>"

text \<open>
  A value owns its buffer when \<open>data\<close> addresses a live block of exactly \<open>sz\<close>
  octets (header: ``the size of the data, denominated in octets [...] no need to
  distinguish it from capacity''), or is null with size 0, as \<^verbatim>\<open>bigint_s_init( 0 )\<close>
  leaves it.
\<close>

definition owns :: "heap \<Rightarrow> bigint_s \<Rightarrow> bool" where
  "owns h v =
     (case data v of
        NULL \<Rightarrow> sz v = 0
      | Ptr p \<Rightarrow> (case blocks h p of None \<Rightarrow> False | Some blk \<Rightarrow> length blk = unat (sz v)))"

text \<open>The four constructors from a primitive under one name, by the width of the primitive.\<close>

datatype prim = Prim8 "8 word" | Prim16 "16 word" | Prim32 "32 word" | Prim64 "64 word"

fun bigint_s_make :: "byte_order \<Rightarrow> heap \<Rightarrow> prim \<Rightarrow> fault + bigint_s \<times> heap" where
  "bigint_s_make bo h (Prim8 n) = bigint_s_make8 bo h n"
| "bigint_s_make bo h (Prim16 n) = bigint_s_make16 bo h n"
| "bigint_s_make bo h (Prim32 n) = bigint_s_make32 bo h n"
| "bigint_s_make bo h (Prim64 n) = bigint_s_make64 bo h n"

section \<open>Empty operands\<close>

text \<open>
  C4. When at least one operand has size 0, \<^verbatim>\<open>bigint_s_cmp_gt\<close>, \<^verbatim>\<open>bigint_s_cmp_ge\<close>
  and \<^verbatim>\<open>bigint_s_cmp_eq\<close> each return \<^verbatim>\<open>BIGINT_UNDEFINED\<close> (and the first two leave the
  store as it was).
\<close>

theorem empty_operand_undefined:
  "sz a = 0 \<or> sz b = 0 \<Longrightarrow>
     bigint_s_cmp_gt h a b = Some (Inr (BIGINT_UNDEFINED, h)) \<and>
     bigint_s_cmp_ge h a b = Some (Inr (BIGINT_UNDEFINED, h)) \<and>
     bigint_s_cmp_eq h a b = Inr BIGINT_UNDEFINED"
  by (simp add: bigint_s_cmp_gt_def bigint_s_cmp_ge_def bigint_s_cmp_impl_def bigint_s_cmp_eq_def)

theorem empty_operand_undefined_witness:
  "(sz \<lparr>data = NULL, sz = 0\<rparr> = 0 \<or> sz \<lparr>data = Ptr 0, sz = 1\<rparr> = 0) \<and>
   bigint_s_cmp_gt \<lparr>blocks = [0 \<mapsto> [5]], brk = 1\<rparr> \<lparr>data = NULL, sz = 0\<rparr> \<lparr>data = Ptr 0, sz = 1\<rparr>
     = Some (Inr (BIGINT_UNDEFINED, \<lparr>blocks = [0 \<mapsto> [5]], brk = 1\<rparr>)) \<and>
   bigint_s_cmp_ge \<lparr>blocks = [0 \<mapsto> [5]], brk = 1\<rparr> \<lparr>data = NULL, sz = 0\<rparr> \<lparr>data = Ptr 0, sz = 1\<rparr>
     = Some (Inr (BIGINT_UNDEFINED, \<lparr>blocks = [0 \<mapsto> [5]], brk = 1\<rparr>)) \<and>
   bigint_s_cmp_eq \<lparr>blocks = [0 \<mapsto> [5]], brk = 1\<rparr> \<lparr>data = NULL, sz = 0\<rparr> \<lparr>data = Ptr 0, sz = 1\<rparr>
     = Inr BIGINT_UNDEFINED"
  using empty_operand_undefined
    [of "\<lparr>data = NULL, sz = 0\<rparr>" "\<lparr>data = Ptr 0, sz = 1\<rparr>" "\<lparr>blocks = [0 \<mapsto> [5]], brk = 1\<rparr>"]
  by simp

section \<open>Construction\<close>

lemma rd_alloc0:
  "0 \<le> i \<Longrightarrow> i < int k \<Longrightarrow> rd (snd (uni_alloc0 h k)) (fst (uni_alloc0 h k)) i = Some 0"
  by (simp add: uni_alloc0_def)

text \<open>
  C8. \<^verbatim>\<open>bigint_s_init( n )\<close> returns a value of size \<open>n\<close> that owns a buffer of \<open>n\<close>
  octets, each of them zero; for \<open>n = 0\<close> the value is empty: its size is 0, its buffer
  is null, and nothing was allocated.
\<close>

theorem init_zero_filled:
  "bigint_s_init h n = (v, h') \<Longrightarrow>
     sz v = n \<and> owns h' v \<and>
     (\<forall>i. 0 \<le> i \<and> i < uint n \<longrightarrow> rd h' (data v) i = Some 0) \<and>
     (n = 0 \<longrightarrow> data v = NULL \<and> h' = h)"
proof (cases "n = 0")
  case True
  assume "bigint_s_init h n = (v, h')"
  with True have "v = \<lparr>data = NULL, sz = 0\<rparr>" "h' = h"
    by (simp_all add: bigint_s_init_def)
  with True show ?thesis
    by (simp add: owns_def)
next
  case False
  assume "bigint_s_init h n = (v, h')"
  with False have v: "v = \<lparr>data = fst (uni_alloc0 h (unat n)), sz = n\<rparr>"
    and h': "h' = snd (uni_alloc0 h (unat n))"
    by (simp_all add: bigint_s_init_def word_greater_zero_iff split_beta)
  have "owns h' v"
    by (simp add: v h' owns_def uni_alloc0_def)
  moreover have "rd h' (data v) i = Some 0" if "0 \<le> i" "i < uint n" for i
    using that rd_alloc0 [of i "unat n" h] by (simp add: v h')
  ultimately show ?thesis
    using False by (simp add: v)
qed

theorem init_zero_filled_witness:
  "sz (fst (bigint_s_init empty_heap 3)) = 3 \<and>
   owns (snd (bigint_s_init empty_heap 3)) (fst (bigint_s_init empty_heap 3)) \<and>
   rd (snd (bigint_s_init empty_heap 3)) (data (fst (bigint_s_init empty_heap 3))) 0 = Some 0 \<and>
   rd (snd (bigint_s_init empty_heap 3)) (data (fst (bigint_s_init empty_heap 3))) 2 = Some 0 \<and>
   data (fst (bigint_s_init empty_heap 0)) = NULL \<and>
   snd (bigint_s_init empty_heap 0) = empty_heap"
  using init_zero_filled [of empty_heap 3 "fst (bigint_s_init empty_heap 3)" "snd (bigint_s_init empty_heap 3)"]
    init_zero_filled [of empty_heap 0 "fst (bigint_s_init empty_heap 0)" "snd (bigint_s_init empty_heap 0)"]
  by simp

lemma length_le_octets: "length (le_octets k w) = k"
  by (induction k arbitrary: w) simp_all


lemma length_object_rep: "length (object_rep bo k w) = k"
  by (cases bo) (simp_all add: object_rep_def length_le_octets)

lemma init_positive:
  "n \<noteq> 0 \<Longrightarrow> bigint_s_init h n =
     (\<lparr>data = Ptr (brk h), sz = n\<rparr>,
      h\<lparr>blocks := (blocks h)(brk h \<mapsto> replicate (unat n) 0), brk := Suc (brk h)\<rparr>)"
  by (simp add: bigint_s_init_def uni_alloc0_def word_greater_zero_iff)

lemma make64_result:
  "bigint_s_make64 bo h n =
     Inr (\<lparr>data = Ptr (brk h), sz = 8\<rparr>,
          h\<lparr>blocks := (blocks h)(brk h \<mapsto> object_rep bo 8 n), brk := Suc (brk h)\<rparr>)"
  by (simp add: bigint_s_make64_def init_positive length_object_rep)

lemma make32_result:
  "bigint_s_make32 bo h n =
     Inr (\<lparr>data = Ptr (brk h), sz = 4\<rparr>,
          h\<lparr>blocks := (blocks h)(brk h \<mapsto> object_rep bo 4 n), brk := Suc (brk h)\<rparr>)"
  by (simp add: bigint_s_make32_def init_positive length_object_rep)

lemma make16_result:
  "bigint_s_make16 bo h n =
     Inr (\<lparr>data = Ptr (brk h), sz = 2\<rparr>,
          h\<lparr>blocks := (blocks h)(brk h \<mapsto> object_rep bo 2 n), brk := Suc (brk h)\<rparr>)"
  by (simp add: bigint_s_make16_def init_positive length_object_rep)

lemma make8_result:
  "bigint_s_make8 bo h n =
     Inr (\<lparr>data = Ptr (brk h), sz = 1\<rparr>,
          h\<lparr>blocks := (blocks h)(brk h \<mapsto> object_rep bo 1 n), brk := Suc (brk h)\<rparr>)"
  by (simp add: bigint_s_make8_def init_positive length_object_rep)




lemma le_octets_numeral:
  "le_octets (numeral k) w = ucast w # le_octets (pred_numeral k) (drop_bit 8 w)"
  by (simp add: numeral_eq_Suc)

lemmas eval_make =
  make64_result make32_result make16_result make8_result object_rep_def le_octets_numeral
  empty_heap_def


section \<open>Equality\<close>

lemma rd_block:
  assumes "blocks h p = Some blk" "i < n" "length blk = unat n"
  shows "rd h (Ptr p) (uint i) = Some (blk ! unat i)"
proof -
  from assms(2) have "uint i < uint n"
    by (simp add: word_less_def)
  then have "uint i < int (length blk)"
    by (simp add: assms(3))
  moreover have "nat (uint i) = unat i"
    by simp
  ultimately show ?thesis
    using assms(1) by simp
qed

lemma unat_succ_below: "i < n \<Longrightarrow> unat (i + 1) = Suc (unat i)" for i n :: u16
proof -
  assume "i < n"
  then have "unat i < unat n"
    by (simp add: word_less_nat_alt)
  moreover have "unat n < 2 ^ 16"
    using unsigned_less [of n] by simp
  ultimately show ?thesis
    by (simp add: unat_word_ariths)
qed

lemma cmp_eq_loop_scan:
  assumes "data a = Ptr pa" "blocks h pa = Some ba" "length ba = unat n"
    and "data b = Ptr pb" "blocks h pb = Some bb" "length bb = unat n"
  shows "cmp_eq_loop h a b n i =
           (if \<exists>j. unat i \<le> j \<and> j < unat n \<and> ba ! j \<noteq> bb ! j
            then Inr (Some BIGINT_FALSE) else Inr None)"
  using assms
proof (induction h a b n i rule: cmp_eq_loop.induct)
  case (1 h a b n i)
  show ?case
  proof (cases "i < n")
    case False
    then have "\<not> unat i < unat n"
      by (simp add: word_less_nat_alt)
    then have "\<not> (\<exists>j. unat i \<le> j \<and> j < unat n \<and> ba ! j \<noteq> bb ! j)"
      by auto
    with False show ?thesis
      by (subst cmp_eq_loop.simps) simp
  next
    case True
    have ra: "rd h (data a) (uint i) = Some (ba ! unat i)"
      using rd_block [OF "1.prems"(2) True "1.prems"(3)] "1.prems"(1) by simp
    have rb: "rd h (data b) (uint i) = Some (bb ! unat i)"
      using rd_block [OF "1.prems"(5) True "1.prems"(6)] "1.prems"(4) by simp
    from True have lt: "unat i < unat n"
      by (simp add: word_less_nat_alt)
    show ?thesis
    proof (cases "ba ! unat i = bb ! unat i")
      case False
      with lt have "\<exists>j. unat i \<le> j \<and> j < unat n \<and> ba ! j \<noteq> bb ! j"
        by auto
      with True ra rb False show ?thesis
        by (subst cmp_eq_loop.simps) simp
    next
      case same: True
      have step: "cmp_eq_loop h a b n i = cmp_eq_loop h a b n (i + 1)"
        using True ra rb same by (subst cmp_eq_loop.simps) simp
      have IH: "cmp_eq_loop h a b n (i + 1) =
           (if \<exists>j. unat (i + 1) \<le> j \<and> j < unat n \<and> ba ! j \<noteq> bb ! j
            then Inr (Some BIGINT_FALSE) else Inr None)"
        using "1.IH" [OF True ra rb] same "1.prems" by simp
      have "(\<exists>j. unat i \<le> j \<and> j < unat n \<and> ba ! j \<noteq> bb ! j) \<longleftrightarrow>
            (\<exists>j. Suc (unat i) \<le> j \<and> j < unat n \<and> ba ! j \<noteq> bb ! j)"
        using same by (metis Suc_leD Suc_leI le_neq_implies_less)
      with step IH show ?thesis
        by (simp add: unat_succ_below [OF True])
    qed
  qed
qed


lemma owns_nonempty:
  assumes "owns h v" "sz v \<noteq> 0"
  obtains p blk where "data v = Ptr p" "blocks h p = Some blk" "length blk = unat (sz v)"
  using assms by (auto simp: owns_def split: ptr.splits option.splits)

lemma rd_owned:
  assumes "blocks h p = Some blk" "length blk = unat n"
  shows "rd h (Ptr p) i = (if 0 \<le> i \<and> i < uint n then Some (blk ! nat i) else None)"
  using assms by simp

lemma cmp_eq_owned:
  assumes "owns h a" "owns h b" "sz a \<noteq> 0" "sz a = sz b"
  shows "bigint_s_cmp_eq h a b =
           Inr (if \<exists>i. 0 \<le> i \<and> i < uint (sz a) \<and> rd h (data a) i \<noteq> rd h (data b) i
                then BIGINT_FALSE else BIGINT_TRUE)"
proof -
  from assms(1,3) obtain pa ba
    where a: "data a = Ptr pa" "blocks h pa = Some ba" "length ba = unat (sz a)"
    by (rule owns_nonempty)
  from assms(2,3,4) obtain pb bb
    where b: "data b = Ptr pb" "blocks h pb = Some bb" "length bb = unat (sz a)"
    by (metis owns_nonempty)
  have "(\<exists>i. 0 \<le> i \<and> i < uint (sz a) \<and> rd h (data a) i \<noteq> rd h (data b) i) \<longleftrightarrow>
        (\<exists>j. j < unat (sz a) \<and> ba ! j \<noteq> bb ! j)" (is "?L \<longleftrightarrow> ?R")
  proof
    assume ?L
    then obtain i where i: "0 \<le> i" "i < uint (sz a)" "rd h (data a) i \<noteq> rd h (data b) i"
      by blast
    then have "ba ! nat i \<noteq> bb ! nat i"
      by (simp add: a b rd_owned [OF a(2,3)] rd_owned [OF b(2,3)] del: rd.simps)
    moreover from i have "nat i < unat (sz a)"
      by (simp add: nat_less_iff)
    ultimately show ?R by blast
  next
    assume ?R
    then obtain j where j: "j < unat (sz a)" "ba ! j \<noteq> bb ! j"
      by blast
    from j(1) have "int j < uint (sz a)"
      by (metis of_nat_less_iff uint_nat)
    with j(2) have "0 \<le> int j \<and> int j < uint (sz a) \<and> rd h (data a) (int j) \<noteq> rd h (data b) (int j)"
      by (simp add: a b rd_owned [OF a(2,3)] rd_owned [OF b(2,3)] del: rd.simps)
    then show ?L by blast
  qed
  moreover have "cmp_eq_loop h a b (sz a) 0 =
      (if \<exists>j. unat (0 :: u16) \<le> j \<and> j < unat (sz a) \<and> ba ! j \<noteq> bb ! j
       then Inr (Some BIGINT_FALSE) else Inr None)"
    by (rule cmp_eq_loop_scan [OF a b])
  ultimately show ?thesis
    using assms(3,4) by (simp add: bigint_s_cmp_eq_def)
qed

text \<open>
  C2. For operands that own their buffers, \<^verbatim>\<open>bigint_s_cmp_eq\<close> returns
  \<^verbatim>\<open>BIGINT_UNDEFINED\<close> when either size is 0; otherwise \<^verbatim>\<open>BIGINT_FALSE\<close> when the sizes
  differ or when the octets at some common index differ; and \<^verbatim>\<open>BIGINT_TRUE\<close> exactly in
  the remaining case, when the sizes are equal and all octets are pairwise equal. It never
  faults on such operands.
\<close>

theorem cmp_eq_spec:
  assumes "owns h a" "owns h b"
  shows "bigint_s_cmp_eq h a b =
           Inr (if sz a = 0 \<or> sz b = 0 then BIGINT_UNDEFINED
                else if sz a \<noteq> sz b then BIGINT_FALSE
                else if \<exists>i. 0 \<le> i \<and> i < uint (sz a) \<and> rd h (data a) i \<noteq> rd h (data b) i
                     then BIGINT_FALSE
                     else BIGINT_TRUE)"
proof (cases "sz a = 0 \<or> sz b = 0")
  case True
  then show ?thesis
    by (simp add: bigint_s_cmp_eq_def)
next
  case nonempty: False
  show ?thesis
  proof (cases "sz a = sz b")
    case False
    with nonempty show ?thesis
      by (simp add: bigint_s_cmp_eq_def)
  next
    case True
    with nonempty cmp_eq_owned [OF assms] show ?thesis
      by simp
  qed
qed

theorem cmp_eq_spec_witness:
  "owns \<lparr>blocks = [0 \<mapsto> [1, 2], 1 \<mapsto> [1, 3], 2 \<mapsto> [7]], brk = 3\<rparr> \<lparr>data = Ptr 0, sz = 2\<rparr> \<and>
   owns \<lparr>blocks = [0 \<mapsto> [1, 2], 1 \<mapsto> [1, 3], 2 \<mapsto> [7]], brk = 3\<rparr> \<lparr>data = Ptr 1, sz = 2\<rparr> \<and>
   owns \<lparr>blocks = [0 \<mapsto> [1, 2], 1 \<mapsto> [1, 3], 2 \<mapsto> [7]], brk = 3\<rparr> \<lparr>data = Ptr 2, sz = 1\<rparr> \<and>
   bigint_s_cmp_eq \<lparr>blocks = [0 \<mapsto> [1, 2], 1 \<mapsto> [1, 3], 2 \<mapsto> [7]], brk = 3\<rparr>
     \<lparr>data = Ptr 0, sz = 2\<rparr> \<lparr>data = Ptr 2, sz = 1\<rparr> = Inr BIGINT_FALSE \<and>
   bigint_s_cmp_eq \<lparr>blocks = [0 \<mapsto> [1, 2], 1 \<mapsto> [1, 3], 2 \<mapsto> [7]], brk = 3\<rparr>
     \<lparr>data = Ptr 0, sz = 2\<rparr> \<lparr>data = Ptr 1, sz = 2\<rparr> = Inr BIGINT_FALSE \<and>
   bigint_s_cmp_eq \<lparr>blocks = [0 \<mapsto> [1, 2], 1 \<mapsto> [1, 3], 2 \<mapsto> [7]], brk = 3\<rparr>
     \<lparr>data = Ptr 0, sz = 2\<rparr> \<lparr>data = Ptr 0, sz = 2\<rparr> = Inr BIGINT_TRUE"
proof -
  let ?h = "\<lparr>blocks = [0 \<mapsto> [1, 2], 1 \<mapsto> [1, 3], 2 \<mapsto> [7 :: u8]], brk = 3\<rparr>"
  let ?a = "\<lparr>data = Ptr 0, sz = 2\<rparr>" and ?b = "\<lparr>data = Ptr 1, sz = 2\<rparr>"
    and ?c = "\<lparr>data = Ptr 2, sz = 1\<rparr>"
  have o: "owns ?h ?a" "owns ?h ?b" "owns ?h ?c"
    by (simp_all add: owns_def)
  have "rd ?h (data ?a) 1 \<noteq> rd ?h (data ?b) 1"
    by simp
  then have d: "\<exists>i. 0 \<le> i \<and> i < uint (sz ?a) \<and> rd ?h (data ?a) i \<noteq> rd ?h (data ?b) i"
    by (intro exI [of _ 1]) simp
  have "bigint_s_cmp_eq ?h ?a ?c = Inr BIGINT_FALSE"
    using cmp_eq_spec [OF o(1) o(3)] by simp
  moreover have "bigint_s_cmp_eq ?h ?a ?b = Inr BIGINT_FALSE"
    using cmp_eq_spec [OF o(1) o(2)] d by simp
  moreover have "bigint_s_cmp_eq ?h ?a ?a = Inr BIGINT_TRUE"
    using cmp_eq_spec [OF o(1) o(1)] by simp
  ultimately show ?thesis
    using o by simp
qed

section \<open>The octet-scanning loops\<close>

text \<open>
  Neither the loop of \<^verbatim>\<open>bigint_s_dup\<close> nor the scan of \<^verbatim>\<open>bigint_s_cmp_impl\<close> can end
  through its condition: \<^verbatim>\<open>i >= 0\<close> holds for every \<^verbatim>\<open>u16\<close>. The first has no other
  way out, so every run of it that stops, stops at a read outside the buffer.
\<close>

lemma dup_loop_returns_fault:
  assumes "dup_loop h ret i new_sz = Some y"
  shows "y = Inl OutOfBounds"
proof (rule dup_loop.raw_induct [where P = "\<lambda>h ret i new_sz y. y = Inl OutOfBounds", OF _ assms])
  fix f :: "heap \<Rightarrow> bigint_s \<Rightarrow> u16 \<Rightarrow> u16 \<Rightarrow> (fault + u16) option"
  fix h ret i new_sz y
  assume IH: "\<And>h ret i new_sz y. f h ret i new_sz = Some y \<Longrightarrow> y = Inl OutOfBounds"
  assume step:
    "(if 0 \<le> uint i
      then case rd h (data ret) (uint i) of
             None \<Rightarrow> Some (Inl OutOfBounds)
           | Some x \<Rightarrow> f h ret (i - 1) (new_sz - (if x = 0 then 1 else 0))
      else Some (Inr new_sz)) = Some y"
  show "y = Inl OutOfBounds"
  proof (cases "rd h (data ret) (uint i)")
    case None
    with step show ?thesis by simp
  next
    case (Some x)
    with step have "f h ret (i - 1) (new_sz - (if x = 0 then 1 else 0)) = Some y"
      by simp
    then show ?thesis by (rule IH)
  qed
qed

lemma cmp_scan_loop_returns:
  assumes "cmp_scan_loop h a b a_neg i = Some y"
  shows "y = Inl OutOfBounds \<or> y = Inr (Some BIGINT_TRUE) \<or> y = Inr (Some BIGINT_FALSE)"
proof (rule cmp_scan_loop.raw_induct
    [where P = "\<lambda>h a b a_neg i y.
        y = Inl OutOfBounds \<or> y = Inr (Some BIGINT_TRUE) \<or> y = Inr (Some BIGINT_FALSE)",
      OF _ assms])
  fix f :: "heap \<Rightarrow> bigint_s \<Rightarrow> bigint_s \<Rightarrow> int \<Rightarrow> u16 \<Rightarrow> (fault + bigint_cmp_retval option) option"
  fix h a b a_neg i y
  assume IH: "\<And>h a b a_neg i y. f h a b a_neg i = Some y \<Longrightarrow>
      y = Inl OutOfBounds \<or> y = Inr (Some BIGINT_TRUE) \<or> y = Inr (Some BIGINT_FALSE)"
  assume step:
    "(if 0 \<le> uint i
      then case rd h (data a) (uint i) of
             None \<Rightarrow> Some (Inl OutOfBounds)
           | Some x \<Rightarrow>
               (case rd h (data b) (uint i) of
                  None \<Rightarrow> Some (Inl OutOfBounds)
                | Some y \<Rightarrow>
                    if x > y then Some (Inr (Some (if a_neg \<noteq> 0 then BIGINT_FALSE else BIGINT_TRUE)))
                    else if x < y then Some (Inr (Some (if a_neg \<noteq> 0 then BIGINT_TRUE else BIGINT_FALSE)))
                    else f h a b a_neg (i - 1))
      else Some (Inr None)) = Some y"
  show "y = Inl OutOfBounds \<or> y = Inr (Some BIGINT_TRUE) \<or> y = Inr (Some BIGINT_FALSE)"
  proof (cases "rd h (data a) (uint i)")
    case None
    with step show ?thesis by auto
  next
    case xa: (Some x)
    show ?thesis
    proof (cases "rd h (data b) (uint i)")
      case None
      with xa step show ?thesis by auto
    next
      case (Some y')
      show ?thesis
      proof (cases "x = y'")
        case True
        with xa Some step have "f h a b a_neg (i - 1) = Some y"
          by simp
        then show ?thesis by (rule IH)
      next
        case False
        with xa Some step show ?thesis
          by (auto split: if_splits)
      qed
    qed
  qed
qed

text \<open>
  Where every 16-bit index can be read, no read stops the loop of \<^verbatim>\<open>bigint_s_dup\<close>, and
  it runs forever.
\<close>

lemma dup_loop_runs_forever:
  assumes "data ret = Ptr p" "blocks h p = Some blk" "65536 \<le> length blk"
  shows "dup_loop h ret i new_sz = None"
proof (rule ccontr)
  assume "dup_loop h ret i new_sz \<noteq> None"
  then obtain y where y: "dup_loop h ret i new_sz = Some y"
    by blast
  have "\<not> (\<exists>p blk. data ret = Ptr p \<and> blocks h p = Some blk \<and> 65536 \<le> length blk)"
  proof (rule dup_loop.raw_induct
      [where P = "\<lambda>h ret i new_sz y.
          \<not> (\<exists>p blk. data ret = Ptr p \<and> blocks h p = Some blk \<and> 65536 \<le> length blk)",
        OF _ y])
    fix f :: "heap \<Rightarrow> bigint_s \<Rightarrow> u16 \<Rightarrow> u16 \<Rightarrow> (fault + u16) option"
    fix h ret i new_sz y
    assume IH: "\<And>h ret i new_sz y. f h ret i new_sz = Some y \<Longrightarrow>
        \<not> (\<exists>p blk. data ret = Ptr p \<and> blocks h p = Some blk \<and> 65536 \<le> length blk)"
    assume step:
      "(if 0 \<le> uint i
        then case rd h (data ret) (uint i) of
               None \<Rightarrow> Some (Inl OutOfBounds)
             | Some x \<Rightarrow> f h ret (i - 1) (new_sz - (if x = 0 then 1 else 0))
        else Some (Inr new_sz)) = Some y"
    show "\<not> (\<exists>p blk. data ret = Ptr p \<and> blocks h p = Some blk \<and> 65536 \<le> length blk)"
    proof
      assume "\<exists>p blk. data ret = Ptr p \<and> blocks h p = Some blk \<and> 65536 \<le> length blk"
      then obtain p blk where big: "data ret = Ptr p" "blocks h p = Some blk" "65536 \<le> length blk"
        by blast
      have "uint i < 2 ^ 16"
        using uint_bounded [of i] by simp
      with big(3) have "uint i < int (length blk)"
        by simp
      with big(1,2) have "rd h (data ret) (uint i) = Some (blk ! nat (uint i))"
        by simp
      with step have "f h ret (i - 1) (new_sz - (if blk ! nat (uint i) = 0 then 1 else 0)) = Some y"
        by simp
      from IH [OF this] big show False
        by blast
    qed
  qed
  with assms show False
    by blast
qed

text \<open>
  C6 says that the octet-scanning loops of \<^verbatim>\<open>bigint_s_dup\<close> and of the scan in
  \<^verbatim>\<open>bigint_s_cmp_gt\<close> and \<^verbatim>\<open>bigint_s_cmp_ge\<close> reach an exit for every operand size. In
  the code, for every store, operand and counter, the loop of \<^verbatim>\<open>bigint_s_dup\<close> never
  reaches the statement after it, and the scan never ends through its condition.
\<close>

theorem scan_loops_never_exit:
  "dup_loop h ret i new_sz \<noteq> Some (Inr m) \<and>
   cmp_scan_loop h a b a_neg j \<noteq> Some (Inr None)"
  using dup_loop_returns_fault [of h ret i new_sz "Inr m"]
    cmp_scan_loop_returns [of h a b a_neg j "Inr None"]
  by auto

section \<open>Duplication\<close>

text \<open>
  On a value that owns its buffer the counter of the loop wraps from 0 to 65535, an index
  no buffer of a \<^verbatim>\<open>u16\<close> size has: \<^verbatim>\<open>bigint_s_dup\<close> faults there, whatever the octets.
\<close>

lemma rd_beyond:
  assumes "owns h v"
  shows "rd h (data v) 65535 = None"
proof (cases "data v")
  case NULL
  then show ?thesis by simp
next
  case (Ptr p)
  with assms obtain blk where blk: "blocks h p = Some blk" "length blk = unat (sz v)"
    by (auto simp: owns_def split: option.splits)
  have "uint (sz v) < 2 ^ 16"
    using uint_bounded [of "sz v"] by simp
  then have "\<not> 65535 < int (unat (sz v))"
    by simp
  with blk have "\<not> 65535 < int (length blk)"
    by simp
  with blk Ptr show ?thesis
    by simp
qed

lemma dup_loop_faults:
  assumes "owns h v"
  shows "dup_loop h v i n = Some (Inl OutOfBounds)"
proof (induction k \<equiv> "unat i" arbitrary: i n)
  case 0
  then have i: "i = 0"
    by (simp add: unat_eq_0)
  have wrap: "uint (- 1 :: u16) = 65535"
    by (simp add: unsigned_minus_1_eq_mask mask_eq_exp_minus_1)
  have last: "dup_loop h v (- 1) m = Some (Inl OutOfBounds)" for m
    by (subst dup_loop.simps) (simp only: wrap rd_beyond [OF assms], simp)
  show ?case
  proof (cases "rd h (data v) (uint i)")
    case None
    then show ?thesis
      by (subst dup_loop.simps) simp
  next
    case (Some x)
    then show ?thesis
      by (subst dup_loop.simps) (simp add: i last)
  qed
next
  case (Suc k)
  then have "i \<noteq> 0"
    by auto
  with Suc.hyps(2) have "k = unat (i - 1)"
    by (simp add: unat_minus_one)
  note IH = Suc.hyps(1) [OF this]
  show ?case
  proof (cases "rd h (data v) (uint i)")
    case None
    then show ?thesis
      by (subst dup_loop.simps) simp
  next
    case (Some x)
    then show ?thesis
      by (subst dup_loop.simps) (simp add: IH)
  qed
qed

lemma dup_faults: "owns h v \<Longrightarrow> bigint_s_dup junk h v = Some (Inl OutOfBounds)"
  by (simp add: bigint_s_dup_def dup_loop_faults)

lemma dup_never_returns: "bigint_s_dup junk h v \<noteq> Some (Inr r)"
proof (cases "dup_loop h v (sz v - 1) (sz v)")
  case None
  then show ?thesis
    by (simp add: bigint_s_dup_def)
next
  case (Some y)
  from dup_loop_returns_fault [OF Some] Some show ?thesis
    by (simp add: bigint_s_dup_def)
qed

text \<open>
  C5 says that \<^verbatim>\<open>bigint_s_dup( v )\<close> returns a deep copy trimmed to the highest-order
  non-zero octet of \<open>v\<close>. For \<open>v\<close> made from the 16-bit primitive 5, with octets 5 and 0,
  the code returns no value: the loop reads index 1, index 0 and then index 65535, outside
  the buffer of two octets.
\<close>

theorem dup_make16_5_faults:
  "\<exists>v h1.
     bigint_s_make16 LittleEndian empty_heap 5 = Inr (v, h1) \<and>
     rd h1 (data v) 0 = Some 5 \<and> rd h1 (data v) 1 = Some 0 \<and>
     bigint_s_dup junk h1 v = Some (Inl OutOfBounds)"
  by (simp add: eval_make bigint_s_dup_def dup_loop.simps)

section \<open>Ordering\<close>

text \<open>
  The scan starts at index \<^verbatim>\<open>sml_sz\<close>, the smaller of the two sizes, which is one past
  the last octet of the shorter operand. So on operands that own their buffers the last
  block of \<^verbatim>\<open>bigint_s_cmp_impl\<close> faults at its first pair of reads, and with it every
  comparison of two operands of one size and one sign.
\<close>

lemma rd_at_size:
  assumes "owns h v"
  shows "rd h (data v) (uint (sz v)) = None"
proof (cases "data v")
  case NULL
  then show ?thesis by simp
next
  case (Ptr p)
  with assms obtain blk where "blocks h p = Some blk" "length blk = unat (sz v)"
    by (auto simp: owns_def split: option.splits)
  moreover have "int (unat (sz v)) = uint (sz v)"
    by simp
  ultimately show ?thesis
    using Ptr by simp
qed

lemma cmp_tail_faults:
  assumes "owns h a" "owns h b"
  shows "cmp_tail h a b a_neg orequ = Some (Inl OutOfBounds)"
proof (cases "sz a < sz b")
  case True
  have "cmp_scan_loop h a b a_neg (sz a) = Some (Inl OutOfBounds)"
    by (subst cmp_scan_loop.simps) (simp add: rd_at_size [OF assms(1)])
  with True show ?thesis
    by (simp add: cmp_tail_def)
next
  case False
  have "cmp_scan_loop h a b a_neg (sz b) = Some (Inl OutOfBounds)"
    by (subst cmp_scan_loop.simps) (simp add: rd_at_size [OF assms(2)] split: option.splits)
  with False show ?thesis
    by (simp add: cmp_tail_def)
qed

lemma wr_owns:
  assumes "wr h p i x = Some h'" "owns h v"
  shows "owns h' v"
proof (cases p)
  case NULL
  with assms(1) show ?thesis by simp
next
  case (Ptr q)
  with assms(1) obtain blk where "blocks h q = Some blk"
    and "h' = h\<lparr>blocks := (blocks h)(q \<mapsto> blk[nat i := x])\<rparr>"
    by (auto split: option.splits if_splits)
  with assms(2) show ?thesis
    by (auto simp: owns_def split: ptr.splits option.splits)
qed

lemma clear_sign_owns:
  assumes "clear_sign h w = Some h'" "owns h v"
  shows "owns h' v"
  using assms wr_owns
  by (auto simp: clear_sign_def split: option.splits)

lemma cmp_same_sign_faults:
  assumes "owns h a" "owns h b" "sz a = sz b"
  shows "cmp_same_sign h a b a_neg orequ = Some (Inl OutOfBounds)"
proof (cases "clear_sign h a")
  case None
  then show ?thesis
    by (simp add: cmp_same_sign_def)
next
  case h1: (Some h1)
  show ?thesis
  proof (cases "clear_sign h1 b")
    case None
    with h1 show ?thesis
      by (simp add: cmp_same_sign_def)
  next
    case h2: (Some h2)
    have "owns h2 a" "owns h2 b"
      using clear_sign_owns [OF h2] clear_sign_owns [OF h1] assms(1,2) by blast+
    then have "cmp_tail h2 a b a_neg orequ = Some (Inl OutOfBounds)"
      by (rule cmp_tail_faults)
    with h1 h2 assms(3) show ?thesis
      by (simp add: cmp_same_sign_def)
  qed
qed

lemma cmp_impl_equal_sizes_fault:
  assumes "owns h a" "owns h b" "sz a \<noteq> 0" "sz a = sz b" "isnegative h a = isnegative h b"
  shows "bigint_s_cmp_impl h a b orequ = Some (Inl OutOfBounds)"
  using assms cmp_same_sign_faults [OF assms(1,2,4)]
  by (simp add: bigint_s_cmp_impl_def split: option.splits)

lemmas eval_cmp =
  bigint_s_cmp_gt_def bigint_s_cmp_ge_def bigint_s_cmp_impl_def isnegative_def
  cmp_same_sign_def clear_sign_def cmp_tail_def cmp_big_loop.simps cmp_scan_loop.simps

text \<open>
  C9 says that every octet read of \<^verbatim>\<open>bigint_s_cmp_gt\<close> and \<^verbatim>\<open>bigint_s_cmp_ge\<close> on
  non-empty operands is at an index below the size of the operand read. For the operands
  made from the 32-bit primitives 7 and 9, both of size 4 with indices 0 to 3 readable,
  the code reads index 4 of each, where no octet is, and both comparisons fault.
\<close>

theorem cmp_scan_reads_at_size:
  "\<exists>a h1 b h2.
     bigint_s_make32 LittleEndian empty_heap 7 = Inr (a, h1) \<and>
     bigint_s_make32 LittleEndian h1 9 = Inr (b, h2) \<and>
     sz a = 4 \<and> sz b = 4 \<and>
     rd h2 (data a) 3 = Some 0 \<and> rd h2 (data a) 4 = None \<and>
     rd h2 (data b) 3 = Some 0 \<and> rd h2 (data b) 4 = None \<and>
     bigint_s_cmp_gt h2 a b = Some (Inl OutOfBounds) \<and>
     bigint_s_cmp_ge h2 a b = Some (Inl OutOfBounds)"
  by (simp add: eval_make eval_cmp)

text \<open>
  C3 says that \<^verbatim>\<open>bigint_s_cmp_gt\<close> on \<^verbatim>\<open>bigint_s_make8( 5 )\<close> and
  \<^verbatim>\<open>bigint_s_make8( 3 )\<close> returns \<^verbatim>\<open>BIGINT_TRUE\<close>. The code returns no value there: both
  operands are non-negative and of size 1, and the scan reads index 1 of their one-octet
  buffers before it would compare the octets 5 and 3 at index 0.
\<close>

theorem cmp_gt_make8_5_3_faults:
  "\<exists>a h1 b h2.
     bigint_s_make8 LittleEndian empty_heap 5 = Inr (a, h1) \<and>
     bigint_s_make8 LittleEndian h1 3 = Inr (b, h2) \<and>
     bigint_s_cmp_gt h2 a b = Some (Inl OutOfBounds)"
  by (simp add: eval_make eval_cmp)

text \<open>
  C1 says that the comparisons leave every octet of both operands' buffers as it was. For
  the operands made from the 16-bit primitive \<open>0x8100\<close> and the 8-bit primitive \<open>0x80\<close>,
  both negative, \<^verbatim>\<open>bigint_s_cmp_gt\<close> returns \<^verbatim>\<open>BIGINT_FALSE\<close>, and in the store it
  returns the top octet of the first buffer has changed from \<open>0x81\<close> to \<open>0x01\<close> and that
  of the second from \<open>0x80\<close> to \<open>0x00\<close>.
\<close>

theorem cmp_gt_clears_sign_bits_of_operands:
  "\<exists>a h1 b h2 h3.
     bigint_s_make16 LittleEndian empty_heap 0x8100 = Inr (a, h1) \<and>
     bigint_s_make8 LittleEndian h1 0x80 = Inr (b, h2) \<and>
     rd h2 (data a) 1 = Some 0x81 \<and> rd h2 (data b) 0 = Some 0x80 \<and>
     bigint_s_cmp_gt h2 a b = Some (Inr (BIGINT_FALSE, h3)) \<and>
     rd h3 (data a) 1 = Some 0x01 \<and> rd h3 (data b) 0 = Some 0x00"
  by (simp add: eval_make eval_cmp)

text \<open>
  \<^verbatim>\<open>BIGINT_UNDEFINED\<close> is returned by the test for an empty operand only.
\<close>

lemma cmp_tail_defined: "cmp_tail h a b a_neg orequ \<noteq> Some (Inr (BIGINT_UNDEFINED, h'))"
proof (cases "cmp_scan_loop h a b a_neg (if sz a < sz b then sz a else sz b)")
  case None
  then show ?thesis
    by (simp add: cmp_tail_def)
next
  case (Some y)
  from cmp_scan_loop_returns [OF Some] Some show ?thesis
    by (auto simp: cmp_tail_def)
qed

lemma cmp_same_sign_defined:
  "cmp_same_sign h a b a_neg orequ \<noteq> Some (Inr (BIGINT_UNDEFINED, h'))"
proof (cases "clear_sign h a")
  case None
  then show ?thesis
    by (simp add: cmp_same_sign_def)
next
  case h1: (Some h1)
  show ?thesis
  proof (cases "clear_sign h1 b")
    case None
    with h1 show ?thesis
      by (simp add: cmp_same_sign_def)
  next
    case h2: (Some h2)
    show ?thesis
    proof (cases "sz a = sz b")
      case True
      with h1 h2 cmp_tail_defined [of h2 a b a_neg orequ h'] show ?thesis
        by (simp add: cmp_same_sign_def)
    next
      case False
      let ?big = "if sz a > sz b then a else b"
      let ?sml = "if sz a < sz b then sz a else sz b"
      show ?thesis
      proof (cases "cmp_big_loop h2 ?big ?sml (sz ?big - 1)")
        case None
        with h1 h2 False show ?thesis
          by (simp add: cmp_same_sign_def Let_def)
      next
        case (Some r)
        show ?thesis
        proof (cases r)
          case (Inl e)
          with Some h1 h2 False show ?thesis
            by (simp add: cmp_same_sign_def Let_def)
        next
          case (Inr found)
          with Some h1 h2 False cmp_tail_defined [of h2 a b a_neg orequ h'] show ?thesis
            by (cases found) (simp_all add: cmp_same_sign_def Let_def)
        qed
      qed
    qed
  qed
qed

lemma cmp_impl_defined:
  assumes "sz a \<noteq> 0" "sz b \<noteq> 0"
  shows "bigint_s_cmp_impl h a b orequ \<noteq> Some (Inr (BIGINT_UNDEFINED, h'))"
  using assms cmp_same_sign_defined [of h a b _ orequ h']
  by (auto simp: bigint_s_cmp_impl_def split: option.splits)

lemma make_shape:
  "\<exists>n rep. n \<noteq> 0 \<and> length rep = unat n \<and>
     bigint_s_make bo h p =
       Inr (\<lparr>data = Ptr (brk h), sz = n\<rparr>,
            h\<lparr>blocks := (blocks h)(brk h \<mapsto> rep), brk := Suc (brk h)\<rparr>)"
proof (cases p)
  case (Prim8 n)
  have "(1 :: u16) \<noteq> 0 \<and> length (object_rep bo 1 n) = unat (1 :: u16)"
    by (simp add: length_object_rep)
  with Prim8 make8_result [of bo h n] show ?thesis
    by (metis bigint_s_make.simps(1))
next
  case (Prim16 n)
  have "(2 :: u16) \<noteq> 0 \<and> length (object_rep bo 2 n) = unat (2 :: u16)"
    by (simp add: length_object_rep)
  with Prim16 make16_result [of bo h n] show ?thesis
    by (metis bigint_s_make.simps(2))
next
  case (Prim32 n)
  have "(4 :: u16) \<noteq> 0 \<and> length (object_rep bo 4 n) = unat (4 :: u16)"
    by (simp add: length_object_rep)
  with Prim32 make32_result [of bo h n] show ?thesis
    by (metis bigint_s_make.simps(3))
next
  case (Prim64 n)
  have "(8 :: u16) \<noteq> 0 \<and> length (object_rep bo 8 n) = unat (8 :: u16)"
    by (simp add: length_object_rep)
  with Prim64 make64_result [of bo h n] show ?thesis
    by (metis bigint_s_make.simps(4))
qed

text \<open>
  C10. Each of the four constructors from a primitive returns, for every primitive, a value
  of size greater than 0; and for two values made one after the other none of the three
  comparisons returns \<^verbatim>\<open>BIGINT_UNDEFINED\<close>. \<^verbatim>\<open>bigint_s_cmp_eq\<close> moreover returns
  \<^verbatim>\<open>BIGINT_TRUE\<close> or \<^verbatim>\<open>BIGINT_FALSE\<close> on them.
\<close>

theorem made_operands_never_undefined:
  "\<exists>a h1 b h2.
     bigint_s_make bo h p = Inr (a, h1) \<and> 0 < sz a \<and>
     bigint_s_make bo h1 q = Inr (b, h2) \<and> 0 < sz b \<and>
     (\<forall>h3. bigint_s_cmp_gt h2 a b \<noteq> Some (Inr (BIGINT_UNDEFINED, h3))) \<and>
     (\<forall>h3. bigint_s_cmp_ge h2 a b \<noteq> Some (Inr (BIGINT_UNDEFINED, h3))) \<and>
     (bigint_s_cmp_eq h2 a b = Inr BIGINT_TRUE \<or> bigint_s_cmp_eq h2 a b = Inr BIGINT_FALSE)"
proof -
  from make_shape [of bo h p] obtain n rep where a: "n \<noteq> 0" "length rep = unat n"
    and ma: "bigint_s_make bo h p =
       Inr (\<lparr>data = Ptr (brk h), sz = n\<rparr>,
            h\<lparr>blocks := (blocks h)(brk h \<mapsto> rep), brk := Suc (brk h)\<rparr>)"
    by blast
  let ?a = "\<lparr>data = Ptr (brk h), sz = n\<rparr>"
  let ?h1 = "h\<lparr>blocks := (blocks h)(brk h \<mapsto> rep), brk := Suc (brk h)\<rparr>"
  from make_shape [of bo ?h1 q] obtain m rep' where b: "m \<noteq> 0" "length rep' = unat m"
    and mb: "bigint_s_make bo ?h1 q =
       Inr (\<lparr>data = Ptr (brk ?h1), sz = m\<rparr>,
            ?h1\<lparr>blocks := (blocks ?h1)(brk ?h1 \<mapsto> rep'), brk := Suc (brk ?h1)\<rparr>)"
    by blast
  let ?b = "\<lparr>data = Ptr (brk ?h1), sz = m\<rparr>"
  let ?h2 = "?h1\<lparr>blocks := (blocks ?h1)(brk ?h1 \<mapsto> rep'), brk := Suc (brk ?h1)\<rparr>"
  have oa: "owns ?h2 ?a" and ob: "owns ?h2 ?b"
    using a b by (simp_all add: owns_def)
  have pos: "0 < sz ?a" "0 < sz ?b"
    using a b by (simp_all add: word_greater_zero_iff)
  have nz: "sz ?a \<noteq> 0" "sz ?b \<noteq> 0"
    using a b by simp_all
  have gt: "bigint_s_cmp_gt ?h2 ?a ?b \<noteq> Some (Inr (BIGINT_UNDEFINED, h3))" for h3
    unfolding bigint_s_cmp_gt_def by (rule cmp_impl_defined [OF nz])
  have ge: "bigint_s_cmp_ge ?h2 ?a ?b \<noteq> Some (Inr (BIGINT_UNDEFINED, h3))" for h3
    unfolding bigint_s_cmp_ge_def by (rule cmp_impl_defined [OF nz])
  have eq: "bigint_s_cmp_eq ?h2 ?a ?b = Inr BIGINT_TRUE \<or>
            bigint_s_cmp_eq ?h2 ?a ?b = Inr BIGINT_FALSE"
  proof (cases "sz ?a = sz ?b")
    case True
    from cmp_eq_owned [OF oa ob nz(1) True] show ?thesis
      by (simp split: if_splits)
  next
    case False
    with nz show ?thesis
      by (simp add: bigint_s_cmp_eq_def)
  qed
  from ma mb pos gt ge eq show ?thesis
    by blast
qed


end
